theory Spec2Isabelle
  imports Main
begin

section \<open>Python string operations used by the pipeline\<close>

text \<open>
  A Python \<open>str\<close> is modelled as a \<open>string\<close> (a list of 8-bit characters), so the
  model covers texts whose code points are below 256. Each operation below is the
  Python built-in of the same name, restricted to the arguments the program passes.
\<close>

text \<open>\<open>s.startswith(p)\<close>.\<close>

definition startswith :: "string \<Rightarrow> string \<Rightarrow> bool" where
  "startswith s p = (take (length p) s = p)"

text \<open>\<open>sub in s\<close>: \<open>sub\<close> occurs somewhere in \<open>s\<close> as a contiguous substring.\<close>

fun contains :: "string \<Rightarrow> string \<Rightarrow> bool" where
  "contains sub [] = (sub = [])"
| "contains sub (c # cs) = (startswith (c # cs) sub \<or> contains sub cs)"

text \<open>\<open>s.split(sep)\<close> for a one-character separator: every occurrence splits, empty
  pieces are kept. The accumulator \<open>w\<close> is the piece being read.\<close>

fun split_acc :: "char \<Rightarrow> string \<Rightarrow> string \<Rightarrow> string list" where
  "split_acc sep w [] = [w]"
| "split_acc sep w (c # cs) =
     (if c = sep then w # split_acc sep [] cs else split_acc sep (w @ [c]) cs)"

definition split_at :: "char \<Rightarrow> string \<Rightarrow> string list" where
  "split_at sep s = split_acc sep [] s"

text \<open>\<open>sep.join(pieces)\<close>.\<close>

fun join :: "string \<Rightarrow> string list \<Rightarrow> string" where
  "join sep [] = []"
| "join sep [p] = p"
| "join sep (p # q # ps) = p @ sep @ join sep (q # ps)"

text \<open>\<open>s.lstrip(c)\<close> and \<open>s.rstrip(c)\<close> for a one-character set \<open>c\<close>.\<close>

definition lstrip :: "char \<Rightarrow> string \<Rightarrow> string" where
  "lstrip c s = dropWhile (\<lambda>x. x = c) s"

definition rstrip :: "char \<Rightarrow> string \<Rightarrow> string" where
  "rstrip c s = rev (dropWhile (\<lambda>x. x = c) (rev s))"

text \<open>
  Python's whitespace among the code points below 256: tab, line feed, vertical tab,
  form feed, carriage return, the separators 28 to 31, space, NEL (133) and the
  no-break space (160).
\<close>

definition isspace :: "char \<Rightarrow> bool" where
  "isspace c = (let n = of_char c :: nat in
     (9 \<le> n \<and> n \<le> 13) \<or> (28 \<le> n \<and> n \<le> 32) \<or> n = 133 \<or> n = 160)"

text \<open>\<open>s.split()\<close>: the maximal runs of non-whitespace characters, in order. The
  accumulator \<open>w\<close> is the word being read.\<close>

fun words_acc :: "string \<Rightarrow> string \<Rightarrow> string list" where
  "words_acc w [] = (if w = [] then [] else [w])"
| "words_acc w (c # cs) =
     (if isspace c then (if w = [] then words_acc [] cs else w # words_acc [] cs)
      else words_acc (w @ [c]) cs)"

definition split_ws :: "string \<Rightarrow> string list" where
  "split_ws s = words_acc [] s"

text \<open>\<open>s.strip()\<close>: whitespace removed at both ends.\<close>

definition strip :: "string \<Rightarrow> string" where
  "strip s = rev (dropWhile isspace (rev (dropWhile isspace s)))"

text \<open>\<open>xs[:k]\<close> for a Python integer \<open>k\<close>: the first \<open>k\<close> elements when \<open>k\<close> is not
  negative, all but the last \<open>-k\<close> elements when it is.\<close>

definition slice_to :: "int \<Rightarrow> 'a list \<Rightarrow> 'a list" where
  "slice_to k xs = (if 0 \<le> k then take (nat k) xs else take (length xs - nat (- k)) xs)"

section \<open>Link Discoverer: \<open>NewsCollector._extract_article_links\<close>\<close>

text \<open>
  The page is given as the list of \<open>href\<close> values of its \<open>a\<close> tags that carry one
  (\<open>soup.find_all("a", href=True)\<close>), in document order. \<open>links_loop\<close> is the first
  loop of the function, with the list \<open>links\<close> as accumulator; \<open>unique_loop\<close> is the
  second, with \<open>unique_links\<close> as accumulator.
\<close>

fun links_loop :: "string \<Rightarrow> string list \<Rightarrow> string list \<Rightarrow> string list" where
  "links_loop base_url [] links = links"
| "links_loop base_url (href # rest) links =
     (if href = [] \<or> startswith href ''#'' \<or> contains ''javascript:'' href
      then links_loop base_url rest links
      else links_loop base_url rest (links @
        [if startswith href ''/''
         then (let domain = join ''/'' (take 3 (split_at (CHR ''/'') base_url))
               in domain @ href)
         else if \<not> (startswith href ''http://'' \<or> startswith href ''https://'')
         then rstrip (CHR ''/'') base_url @ ''/'' @ lstrip (CHR ''/'') href
         else href]))"

fun unique_loop :: "string list \<Rightarrow> string list \<Rightarrow> string list" where
  "unique_loop [] unique_links = unique_links"
| "unique_loop (link # rest) unique_links =
     (if link \<notin> set unique_links
      then unique_loop rest (unique_links @ [link])
      else unique_loop rest unique_links)"

definition extract_article_links :: "string list \<Rightarrow> string \<Rightarrow> string list" where
  "extract_article_links hrefs base_url = unique_loop (links_loop base_url hrefs []) []"

section \<open>Exceptions and the outside world\<close>

text \<open>
  The exception classes the program meets: \<open>requests.RequestException\<close>, newspaper's
  \<open>ArticleException\<close>, the built-in errors that indexing an empty list, calling a method
  on \<open>None\<close>, comparing a timezone-aware with a naive datetime and leaving the range of
  dates raise, and any other \<open>Exception\<close>. A call that may raise returns \<open>exn + 'a\<close>,
  \<open>Inl\<close> being the exception.
\<close>

datatype exn = RequestException | ArticleException | IndexError | AttributeError
  | TypeError | OverflowError | OtherException

text \<open>A \<open>SourceDescriptor\<close>: the dictionaries of \<open>AI_NEWS_SOURCES\<close>.\<close>

record source =
  src_name :: string
  src_url :: string

text \<open>
  A Python \<open>datetime\<close>: naive (no \<open>tzinfo\<close>), given by the microseconds since
  0001-01-01 00:00 that it shows, or timezone-aware, given by the microseconds of its
  instant. \<open>datetime.now()\<close> is naive; the publish date newspaper parses from a page is
  aware when the page writes it with an offset.
\<close>

datatype datetime = Naive int | Aware int

text \<open>What newspaper's \<open>Article\<close> holds after \<open>parse()\<close>: a missing title or text is the
  empty string, a missing publish date is \<open>None\<close>.\<close>

record parsed =
  parsed_title :: string
  parsed_text :: string
  publish_date :: "datetime option"

text \<open>The dictionary \<open>_extract_article_content\<close> returns, with its five keys
  \<open>title\<close>, \<open>text\<close>, \<open>url\<close>, \<open>source\<close> and \<open>date\<close>.\<close>

record article =
  article_title :: string
  article_text :: string
  article_url :: string
  article_source :: string
  article_date :: datetime

text \<open>
  The network and the clock. \<open>http_get u\<close> is \<open>requests.get\<close> on \<open>u\<close> followed by
  \<open>raise_for_status\<close> and the HTML parse, giving the \<open>href\<close> values of the page's \<open>a\<close>
  tags in document order; \<open>download u\<close> is what the request of \<open>Article(u).download()\<close>
  brings back; \<open>parse u page\<close> is \<open>article.parse()\<close>; \<open>clock n\<close> is what
  \<open>datetime.now()\<close> reads after \<open>n\<close> article downloads of the run.
\<close>

record world =
  http_get :: "string \<Rightarrow> exn + string list"
  download :: "string \<Rightarrow> exn + string"
  parse :: "string \<Rightarrow> string \<Rightarrow> exn + parsed"
  clock :: "nat \<Rightarrow> int"

text \<open>
  \<open>Article(url).download()\<close> is an effect on the network: it sends one request for
  \<open>url\<close>, whatever comes back. The state \<open>requests\<close> is the list of the article URLs
  requested so far in the run, oldest first; only this call extends it.
\<close>

definition article_download ::
  "world \<Rightarrow> string \<Rightarrow> string list \<Rightarrow> (exn + string) \<times> string list"
where
  "article_download w url requests = (download w url, requests @ [url])"

section \<open>Content Extractor: \<open>NewsCollector._extract_article_content\<close>\<close>

text \<open>The body of the \<open>try\<close> block; \<open>now\<close> is the reading of \<open>datetime.now()\<close> at the
  return statement.\<close>

definition extract_try ::
  "world \<Rightarrow> int \<Rightarrow> string \<Rightarrow> string \<Rightarrow> string list \<Rightarrow> (exn + article option) \<times> string list"
where
  "extract_try w now url source_name requests =
     (case article_download w url requests of
        (Inl e, requests') \<Rightarrow> (Inl e, requests')
      | (Inr page, requests') \<Rightarrow>
          (case parse w url page of
             Inl e \<Rightarrow> (Inl e, requests')
           | Inr a \<Rightarrow>
               if parsed_title a = [] \<or> parsed_text a = [] then (Inr None, requests')
               else (Inr (Some \<lparr>article_title = parsed_title a,
                                 article_text = parsed_text a,
                                 article_url = url,
                                 article_source = source_name,
                                 article_date = (case publish_date a of
                                                   Some d \<Rightarrow> d
                                                 | None \<Rightarrow> Naive now)\<rparr>), requests')))"

text \<open>The two handlers, \<open>except ArticleException\<close> and \<open>except Exception\<close>, both
  return \<open>None\<close>.\<close>

definition extract_article_content ::
  "world \<Rightarrow> int \<Rightarrow> string \<Rightarrow> string \<Rightarrow> string list \<Rightarrow> article option \<times> string list"
where
  "extract_article_content w now url source_name requests =
     (case extract_try w now url source_name requests of
        (Inr r, requests') \<Rightarrow> (r, requests')
      | (Inl ArticleException, requests') \<Rightarrow> (None, requests')
      | (Inl _, requests') \<Rightarrow> (None, requests'))"

section \<open>Source Ingestion Engine: \<open>_collect_from_source\<close> and \<open>collect_news\<close>\<close>

text \<open>
  The loop over \<open>article_links\<close>, with the list \<open>articles\<close> as accumulator. Each turn
  calls the extractor, which passes the network state on. The extractor raises
  nothing, so the handler around the call is never entered.
\<close>

fun extract_loop ::
  "world \<Rightarrow> string \<Rightarrow> string list \<Rightarrow> article list \<Rightarrow> string list \<Rightarrow> article list \<times> string list"
where
  "extract_loop w nm [] articles requests = (articles, requests)"
| "extract_loop w nm (url # rest) articles requests =
     (case extract_article_content w (clock w (length requests)) url nm requests of
        (None, requests') \<Rightarrow> extract_loop w nm rest articles requests'
      | (Some article_data, requests') \<Rightarrow>
          extract_loop w nm rest (articles @ [article_data]) requests')"

text \<open>
  \<open>_collect_from_source\<close> with \<open>k = max_articles_per_source\<close>: a
  \<open>RequestException\<close> is caught and gives no articles, any other exception of the
  fetch leaves the function.
\<close>

definition collect_from_source ::
  "world \<Rightarrow> int \<Rightarrow> source \<Rightarrow> string list \<Rightarrow> (exn + article list) \<times> string list"
where
  "collect_from_source w k src requests =
     (case http_get w (src_url src) of
        Inl RequestException \<Rightarrow> (Inr [], requests)
      | Inl e \<Rightarrow> (Inl e, requests)
      | Inr hrefs \<Rightarrow>
          (let article_links = extract_article_links hrefs (src_url src);
               article_links = slice_to k article_links;
               (articles, requests') = extract_loop w (src_name src) article_links [] requests
           in (Inr articles, requests')))"

text \<open>The loop of \<open>collect_news\<close> over the sources: an exception of a source is logged
  and the source adds nothing to \<open>articles_data\<close>.\<close>

fun sources_loop ::
  "world \<Rightarrow> int \<Rightarrow> source list \<Rightarrow> article list \<Rightarrow> string list \<Rightarrow> article list \<times> string list"
where
  "sources_loop w k [] articles_data requests = (articles_data, requests)"
| "sources_loop w k (src # rest) articles_data requests =
     (case collect_from_source w k src requests of
        (Inl e, requests') \<Rightarrow> sources_loop w k rest articles_data requests'
      | (Inr source_articles, requests') \<Rightarrow>
          sources_loop w k rest (articles_data @ source_articles) requests')"

text \<open>One day in microseconds.\<close>

definition day :: int where
  "day = 86400000000"

text \<open>\<open>timedelta(days=n)\<close>, in microseconds: the number of days is at most 999999999
  in magnitude.\<close>

definition timedelta_days :: "int \<Rightarrow> exn + int" where
  "timedelta_days n = (if \<bar>n\<bar> > 999999999 then Inl OverflowError else Inr (n * day))"

text \<open>The last microsecond of the year 9999, the greatest \<open>datetime\<close>: day 3652059 of
  the calendar ends with it.\<close>

definition datetime_max :: int where
  "datetime_max = 3652059 * day - 1"

text \<open>\<open>t - delta\<close> for a naive datetime \<open>t\<close>: the result lies between 0001-01-01 and
  the greatest datetime.\<close>

definition datetime_sub :: "int \<Rightarrow> int \<Rightarrow> exn + int" where
  "datetime_sub t delta =
     (if 0 \<le> t - delta \<and> t - delta \<le> datetime_max then Inr (t - delta)
      else Inl OverflowError)"

text \<open>
  \<open>df[df["date"] >= cutoff_date]\<close> for a naive \<open>cutoff_date\<close>: the rows whose date is not
  before the cutoff, in order. The comparison of a timezone-aware date with the naive
  cutoff raises \<open>TypeError\<close>.
\<close>

fun date_filter :: "int \<Rightarrow> article list \<Rightarrow> exn + article list" where
  "date_filter cutoff_date [] = Inr []"
| "date_filter cutoff_date (a # rest) =
     (case article_date a of
        Aware t \<Rightarrow> Inl TypeError
      | Naive t \<Rightarrow>
          (case date_filter cutoff_date rest of
             Inl e \<Rightarrow> Inl e
           | Inr kept \<Rightarrow> Inr (if cutoff_date \<le> t then a # kept else kept)))"

text \<open>
  \<open>collect_news\<close>: the rows of the returned data frame, in order, or the exception that
  leaves the function. \<open>now\<close> is the reading of \<open>datetime.now()\<close> when the cutoff is
  computed, \<open>days\<close> is \<open>days_to_look_back\<close>. Every record carries a date, so the column
  test succeeds whenever there are rows. The cutoff and the comparison stand outside
  every \<open>try\<close>.
\<close>

definition collect_news ::
  "world \<Rightarrow> int \<Rightarrow> int \<Rightarrow> int \<Rightarrow> source list \<Rightarrow> exn + article list"
where
  "collect_news w now days k sources =
     (let articles_data = fst (sources_loop w k sources [] [])
      in if articles_data = [] then Inr []
         else (case timedelta_days days of
                 Inl e \<Rightarrow> Inl e
               | Inr delta \<Rightarrow>
                   (case datetime_sub now delta of
                      Inl e \<Rightarrow> Inl e
                    | Inr cutoff_date \<Rightarrow> date_filter cutoff_date articles_data)))"

section \<open>Condensation Engine: \<open>ArticleSummarizer.summarize\<close>\<close>

text \<open>
  The summarizer after construction: \<open>model_loaded\<close> says that \<open>self.model\<close> and
  \<open>self.tokenizer\<close> are both set, \<open>pegasus\<close> is \<open>_summarize_with_pegasus\<close> and
  \<open>pipeline\<close> is \<open>_summarize_with_pipeline\<close>, each of which may raise.
\<close>

record summarizer =
  model_loaded :: bool
  pegasus :: "string \<Rightarrow> exn + string"
  pipeline :: "string \<Rightarrow> exn + string"

definition max_input_length :: nat where
  "max_input_length = 1024"

text \<open>The first statement of the \<open>try\<close> block: the value of \<open>text\<close> after it.\<close>

definition truncate_words :: "string \<Rightarrow> string" where
  "truncate_words text =
     (if length (split_ws text) > max_input_length
      then join '' '' (take max_input_length (split_ws text))
      else text)"

text \<open>The rest of the \<open>try\<close> block, on the truncated text.\<close>

definition generate :: "summarizer \<Rightarrow> string \<Rightarrow> exn + string" where
  "generate s text = (if model_loaded s then pegasus s text else pipeline s text)"

text \<open>\<open>summarize\<close>: the handler reads \<open>text\<close> as the \<open>try\<close> block left it, which is the
  truncated text, since splitting and joining raise nothing.\<close>

definition summarize :: "summarizer \<Rightarrow> string \<Rightarrow> string" where
  "summarize s text =
     (if text = [] then []
      else (let text = truncate_words text
            in case generate s text of
                 Inr summary \<Rightarrow> summary
               | Inl e \<Rightarrow> take 500 text @ ''...''))"

definition batch_summarize :: "summarizer \<Rightarrow> string list \<Rightarrow> string list" where
  "batch_summarize s texts = map (summarize s) texts"

section \<open>Tone Transformer: \<open>HumorGenerator\<close>\<close>

text \<open>
  \<open>api_key\<close> is \<open>openai.api_key\<close>. \<open>chat_create\<close> is \<open>openai.ChatCompletion.create\<close> as
  a function of the user prompt (the other arguments are fixed at construction); its
  response is given as the list of its choices, each the \<open>content\<close> of the choice's
  message, \<open>None\<close> when there is no content.
\<close>

record humor_generator =
  api_key :: "string option"
  chat_create :: "string \<Rightarrow> exn + string option list"

definition create_prompt :: "string \<Rightarrow> string \<Rightarrow> string" where
  "create_prompt title summary =
     ''\<newline>        Rewrite this AI news summary in a humorous, entertaining way:'' @
     ''\<newline>        '' @
     ''\<newline>        Title: '' @ title @
     ''\<newline>        Summary: '' @ summary @
     ''\<newline>        '' @
     ''\<newline>        Make it witty, include some puns related to AI, and maintain all the key facts.'' @
     ''\<newline>        Format as a short, funny news segment that would make people laugh while still being informative.'' @
     ''\<newline>        ''"

text \<open>\<open>not openai.api_key\<close>: the key is \<open>None\<close> or the empty string.\<close>

definition no_api_key :: "humor_generator \<Rightarrow> bool" where
  "no_api_key g = (api_key g = None \<or> api_key g = Some [])"

text \<open>The \<open>try\<close> block of \<open>add_humor\<close>: \<open>response.choices[0]\<close> raises on an empty list,
  \<open>.strip()\<close> raises on a missing content.\<close>

definition add_humor_try :: "humor_generator \<Rightarrow> string \<Rightarrow> string \<Rightarrow> exn + string" where
  "add_humor_try g title summary =
     (case chat_create g (create_prompt title summary) of
        Inl e \<Rightarrow> Inl e
      | Inr choices \<Rightarrow>
          (case choices of
             [] \<Rightarrow> Inl IndexError
           | c # _ \<Rightarrow>
               (case c of
                  None \<Rightarrow> Inl AttributeError
                | Some content \<Rightarrow> Inr (strip content))))"

definition add_humor :: "humor_generator \<Rightarrow> string \<Rightarrow> string \<Rightarrow> string" where
  "add_humor g title summary =
     (if no_api_key g then title @ ''\<newline>\<newline>'' @ summary
      else (case add_humor_try g title summary of
              Inr humorous_summary \<Rightarrow> humorous_summary
            | Inl e \<Rightarrow> title @ ''\<newline>\<newline>'' @ summary))"

text \<open>
  \<open>batch_add_humor\<close> on a list of dictionaries from strings to strings. The source
  updates each dictionary in place and returns the same list; the model returns the
  updated dictionaries in the same order.
\<close>

fun batch_add_humor ::
  "humor_generator \<Rightarrow> (string \<rightharpoonup> string) list \<Rightarrow> (string \<rightharpoonup> string) list"
where
  "batch_add_humor g [] = []"
| "batch_add_humor g (article # rest) =
     (if ''title'' \<in> dom article \<and> ''summary'' \<in> dom article
      then article(''humorous_content'' \<mapsto>
             add_humor g (the (article ''title'')) (the (article ''summary'')))
      else article) # batch_add_humor g rest"

section \<open>Tone Transformer: pass-through\<close>

text \<open>
  Claim C3. Without an API credential (\<open>openai.api_key\<close> unset or empty), \<open>add_humor\<close>
  returns the title, a blank line and the summary, so \<open>add_humor "T" "S"\<close> is
  \<open>"T\n\nS"\<close>. It returns the same value whenever the request fails: the call raises,
  the response has no choice, or the first choice has no content. In every case it
  returns a string: either this pass-through value or the stripped content of the first
  choice.
\<close>

theorem add_humor_pass_through:
  "(no_api_key g \<longrightarrow> add_humor g title summary = title @ ''\<newline>\<newline>'' @ summary) \<and>
   (api_key g = None \<longrightarrow> add_humor g ''T'' ''S'' = ''T\<newline>\<newline>S'') \<and>
   ((\<exists>e. chat_create g (create_prompt title summary) = Inl e) \<or>
    chat_create g (create_prompt title summary) = Inr [] \<or>
    (\<exists>cs. chat_create g (create_prompt title summary) = Inr (None # cs))
      \<longrightarrow> add_humor g title summary = title @ ''\<newline>\<newline>'' @ summary) \<and>
   (add_humor g title summary = title @ ''\<newline>\<newline>'' @ summary \<or>
    (\<exists>content cs. chat_create g (create_prompt title summary) = Inr (Some content # cs) \<and>
        add_humor g title summary = strip content))"
  by (auto simp: add_humor_def add_humor_try_def no_api_key_def
           split: sum.splits list.splits option.splits)

theorem add_humor_pass_through_witness:
  "add_humor \<lparr>api_key = None, chat_create = (\<lambda>p. Inr [Some ''ha'']) \<rparr> ''T'' ''S'' = ''T\<newline>\<newline>S'' \<and>
   add_humor \<lparr>api_key = Some '''', chat_create = (\<lambda>p. Inr [Some ''ha'']) \<rparr> ''AI'' ''News'' = ''AI\<newline>\<newline>News'' \<and>
   add_humor \<lparr>api_key = Some ''key'', chat_create = (\<lambda>p. Inl RequestException) \<rparr> ''AI'' ''News'' = ''AI\<newline>\<newline>News'' \<and>
   add_humor \<lparr>api_key = Some ''key'', chat_create = (\<lambda>p. Inr []) \<rparr> ''AI'' ''News'' = ''AI\<newline>\<newline>News'' \<and>
   add_humor \<lparr>api_key = Some ''key'', chat_create = (\<lambda>p. Inr [None]) \<rparr> ''AI'' ''News'' = ''AI\<newline>\<newline>News''"
  using add_humor_pass_through [of "\<lparr>api_key = None, chat_create = (\<lambda>p. Inr [Some ''ha'']) \<rparr>" "''T''" "''S''"]
        add_humor_pass_through [of "\<lparr>api_key = Some '''', chat_create = (\<lambda>p. Inr [Some ''ha'']) \<rparr>" "''AI''" "''News''"]
        add_humor_pass_through [of "\<lparr>api_key = Some ''key'', chat_create = (\<lambda>p. Inl RequestException) \<rparr>" "''AI''" "''News''"]
        add_humor_pass_through [of "\<lparr>api_key = Some ''key'', chat_create = (\<lambda>p. Inr []) \<rparr>" "''AI''" "''News''"]
        add_humor_pass_through [of "\<lparr>api_key = Some ''key'', chat_create = (\<lambda>p. Inr [None]) \<rparr>" "''AI''" "''News''"]
  by (simp add: no_api_key_def)

section \<open>Condensation Engine: fallback\<close>

text \<open>A text of \<open>n\<close> one-letter words, each followed by a space.\<close>

lemma split_ws_repeated: "split_ws (concat (replicate n ''a '')) = replicate n ''a''"
  unfolding split_ws_def
  by (induction n) (simp_all add: isspace_def)

text \<open>
  Claim C2. When the generation path chosen at construction (the model or the
  pipeline) raises on an input of \<open>summarize\<close>, the exception is caught and the result is
  the first 500 characters of the text as the 1024-word truncation left it, followed by
  the three characters \<open>...\<close>. The generation path runs only on a non-empty text.
\<close>

theorem summarize_fallback:
  "text \<noteq> [] \<Longrightarrow> generate s (truncate_words text) = Inl e \<Longrightarrow>
     summarize s text = take 500 (truncate_words text) @ ''...'' \<and>
     (length (split_ws text) \<le> 1024 \<longrightarrow> summarize s text = take 500 text @ ''...'') \<and>
     (length (split_ws text) > 1024 \<longrightarrow>
        summarize s text = take 500 (join '' '' (take 1024 (split_ws text))) @ ''...'') \<and>
     length (summarize s text) \<le> 503"
proof -
  assume ne: "text \<noteq> []" and raised: "generate s (truncate_words text) = Inl e"
  have result: "summarize s text = take 500 (truncate_words text) @ ''...''"
    using ne raised by (simp add: summarize_def)
  have short: "length (split_ws text) \<le> 1024 \<longrightarrow> truncate_words text = text"
    by (simp add: truncate_words_def max_input_length_def)
  have long: "length (split_ws text) > 1024 \<longrightarrow>
      truncate_words text = join '' '' (take 1024 (split_ws text))"
    by (simp add: truncate_words_def max_input_length_def)
  have bound: "length (take 500 (truncate_words text) @ ''...'') \<le> 503"
    by simp
  show ?thesis
    using result short long bound by auto
qed

theorem summarize_fallback_witness:
  "summarize \<lparr>model_loaded = True, pegasus = (\<lambda>t. Inl OtherException), pipeline = (\<lambda>t. Inr ''x'')\<rparr>
     ''hello   world'' = ''hello   world...'' \<and>
   summarize \<lparr>model_loaded = False, pegasus = (\<lambda>t. Inr ''x''), pipeline = (\<lambda>t. Inl OtherException)\<rparr>
     ''hello   world'' = ''hello   world...'' \<and>
   summarize \<lparr>model_loaded = True, pegasus = (\<lambda>t. Inl OtherException), pipeline = (\<lambda>t. Inr ''x'')\<rparr>
     (concat (replicate 1025 ''a '')) = take 500 (join '' '' (replicate 1024 ''a'')) @ ''...''"
proof -
  let ?primed = "\<lparr>model_loaded = True, pegasus = (\<lambda>t. Inl OtherException), pipeline = (\<lambda>t. Inr ''x'')\<rparr>"
  let ?degraded = "\<lparr>model_loaded = False, pegasus = (\<lambda>t. Inr ''x''), pipeline = (\<lambda>t. Inl OtherException)\<rparr>"
  let ?long = "concat (replicate 1025 ''a '')"
  have ne: "''hello   world'' \<noteq> []"
    by simp
  have same: "truncate_words ''hello   world'' = ''hello   world''"
    by (simp add: truncate_words_def split_ws_def isspace_def max_input_length_def)
  have r1: "generate ?primed (truncate_words ''hello   world'') = Inl OtherException"
    by (simp add: generate_def)
  have r2: "generate ?degraded (truncate_words ''hello   world'') = Inl OtherException"
    by (simp add: generate_def)
  have long_ne: "?long \<noteq> []"
    by simp
  have cut: "truncate_words ?long = join '' '' (replicate 1024 ''a'')"
    by (simp add: truncate_words_def split_ws_repeated max_input_length_def)
  have r3: "generate ?primed (truncate_words ?long) = Inl OtherException"
    by (simp add: generate_def)
  have short_runs: "summarize ?primed ''hello   world'' = ''hello   world...'' \<and>
      summarize ?degraded ''hello   world'' = ''hello   world...''"
    using summarize_fallback [OF ne r1, THEN conjunct1] summarize_fallback [OF ne r2, THEN conjunct1]
    by (simp add: same)
  have long_run: "summarize ?primed ?long = take 500 (join '' '' (replicate 1024 ''a'')) @ ''...''"
    using summarize_fallback [OF long_ne r3, THEN conjunct1]
    by (simp only: cut)
  show ?thesis
    using short_runs long_run by (intro conjI) simp_all
qed

section \<open>Content Extractor: success and failure\<close>

text \<open>
  Claim C7. \<open>_extract_article_content\<close> returns \<open>None\<close> exactly when the download
  fails, the parse raises, the title is empty or the text is empty, and raises nothing.
  Otherwise it returns a record with a non-empty title and text, the URL and source name
  it was given, and as date the publish date of the page when there is one and the
  current time of the extraction when there is none. The call sends one download
  request, for its URL.
\<close>

theorem extract_article_content_result:
  "(fst (extract_article_content w now url nm requests) = None \<longleftrightarrow>
      (\<exists>e. download w url = Inl e) \<or>
      (\<exists>page e. download w url = Inr page \<and> parse w url page = Inl e) \<or>
      (\<exists>page a. download w url = Inr page \<and> parse w url page = Inr a \<and>
          (parsed_title a = [] \<or> parsed_text a = []))) \<and>
   (\<forall>r. fst (extract_article_content w now url nm requests) = Some r \<longrightarrow>
      article_title r \<noteq> [] \<and> article_text r \<noteq> [] \<and>
      article_url r = url \<and> article_source r = nm \<and>
      (\<exists>page a. download w url = Inr page \<and> parse w url page = Inr a \<and>
          article_title r = parsed_title a \<and> article_text r = parsed_text a \<and>
          article_date r = (case publish_date a of Some d \<Rightarrow> d | None \<Rightarrow> Naive now))) \<and>
   snd (extract_article_content w now url nm requests) = requests @ [url]"
  by (auto simp: extract_article_content_def extract_try_def article_download_def
           split: sum.splits exn.splits)

theorem extract_article_content_result_witness:
  "(\<exists>r. fst (extract_article_content
      \<lparr>http_get = (\<lambda>u. Inl RequestException), download = (\<lambda>u. Inr ''<html>''),
       parse = (\<lambda>u p. Inr \<lparr>parsed_title = ''Title'', parsed_text = ''Body'', publish_date = None\<rparr>),
       clock = (\<lambda>n. 0)\<rparr> 1700 ''https://example.com/a'' ''Example'' []) = Some r \<and>
      article_title r \<noteq> [] \<and> article_text r \<noteq> [] \<and> article_date r = Naive 1700) \<and>
   fst (extract_article_content
      \<lparr>http_get = (\<lambda>u. Inl RequestException), download = (\<lambda>u. Inl ArticleException),
       parse = (\<lambda>u p. Inr \<lparr>parsed_title = ''Title'', parsed_text = ''Body'', publish_date = None\<rparr>),
       clock = (\<lambda>n. 0)\<rparr> 1700 ''https://example.com/a'' ''Example'' []) = None"
proof -
  let ?ok = "\<lparr>http_get = (\<lambda>u. Inl RequestException), download = (\<lambda>u. Inr ''<html>''),
       parse = (\<lambda>u p. Inr \<lparr>parsed_title = ''Title'', parsed_text = ''Body'', publish_date = None\<rparr>),
       clock = (\<lambda>n. 0)\<rparr>"
  let ?down = "\<lparr>http_get = (\<lambda>u. Inl RequestException), download = (\<lambda>u. Inl ArticleException),
       parse = (\<lambda>u p. Inr \<lparr>parsed_title = ''Title'', parsed_text = ''Body'', publish_date = None\<rparr>),
       clock = (\<lambda>n. 0)\<rparr>"
  let ?r = "\<lparr>article_title = ''Title'', article_text = ''Body'', article_url = ''https://example.com/a'',
             article_source = ''Example'', article_date = Naive 1700\<rparr>"
  have run: "fst (extract_article_content ?ok 1700 ''https://example.com/a'' ''Example'' []) = Some ?r"
    by (simp add: extract_article_content_def extract_try_def article_download_def)
  have "\<forall>r. fst (extract_article_content ?ok 1700 ''https://example.com/a'' ''Example'' []) = Some r \<longrightarrow>
      article_title r \<noteq> [] \<and> article_text r \<noteq> [] \<and>
      article_url r = ''https://example.com/a'' \<and> article_source r = ''Example'' \<and>
      (\<exists>page a. download ?ok ''https://example.com/a'' = Inr page \<and>
          parse ?ok ''https://example.com/a'' page = Inr a \<and>
          article_title r = parsed_title a \<and> article_text r = parsed_text a \<and>
          article_date r = (case publish_date a of Some d \<Rightarrow> d | None \<Rightarrow> Naive 1700))"
    by (rule extract_article_content_result [THEN conjunct2, THEN conjunct1])
  with run have first: "article_title ?r \<noteq> [] \<and> article_text ?r \<noteq> [] \<and> article_date ?r = Naive 1700"
    by simp
  have "download ?down ''https://example.com/a'' = Inl ArticleException"
    by simp
  then have second: "fst (extract_article_content ?down 1700 ''https://example.com/a'' ''Example'' []) = None"
    using extract_article_content_result [of ?down 1700 "''https://example.com/a''" "''Example''" "[]",
        THEN conjunct1]
    by blast
  show ?thesis
    using run first second by blast
qed

section \<open>Tone Transformer: records without title or summary\<close>

lemma batch_add_humor_length: "length (batch_add_humor g articles) = length articles"
  by (induction articles) simp_all

lemma batch_add_humor_nth:
  "i < length articles \<Longrightarrow>
     batch_add_humor g articles ! i =
       (if ''title'' \<in> dom (articles ! i) \<and> ''summary'' \<in> dom (articles ! i)
        then (articles ! i)(''humorous_content'' \<mapsto>
               add_humor g (the ((articles ! i) ''title'')) (the ((articles ! i) ''summary'')))
        else articles ! i)"
proof (induction articles arbitrary: i)
  case Nil
  then show ?case by simp
next
  case (Cons a as)
  show ?case
  proof (cases i)
    case 0
    then show ?thesis by simp
  next
    case (Suc j)
    with Cons.prems have "j < length as" by simp
    from Cons.IH [OF this] Suc show ?thesis by simp
  qed
qed

text \<open>
  Claim C9. \<open>batch_add_humor\<close> returns as many records as it was given, and a record
  without a \<open>title\<close> key or without a \<open>summary\<close> key is returned unchanged at its
  position: no \<open>humorous_content\<close> key is added to it, so when it had none the output
  holds a record without stylized content.
\<close>

theorem batch_add_humor_frame:
  "i < length articles \<Longrightarrow>
   ''title'' \<notin> dom (articles ! i) \<or> ''summary'' \<notin> dom (articles ! i) \<Longrightarrow>
     length (batch_add_humor g articles) = length articles \<and>
     batch_add_humor g articles ! i = articles ! i \<and>
     articles ! i \<in> set (batch_add_humor g articles) \<and>
     (''humorous_content'' \<notin> dom (articles ! i) \<longrightarrow>
        (\<exists>a \<in> set (batch_add_humor g articles). ''humorous_content'' \<notin> dom a))"
proof -
  assume i: "i < length articles"
    and miss: "''title'' \<notin> dom (articles ! i) \<or> ''summary'' \<notin> dom (articles ! i)"
  have len: "length (batch_add_humor g articles) = length articles"
    by (rule batch_add_humor_length)
  have same: "batch_add_humor g articles ! i = articles ! i"
    using batch_add_humor_nth [OF i, of g] miss by auto
  have mem: "articles ! i \<in> set (batch_add_humor g articles)"
    using i len same by (metis nth_mem)
  show ?thesis using len same mem by blast
qed

theorem batch_add_humor_frame_witness:
  "batch_add_humor \<lparr>api_key = None, chat_create = (\<lambda>p. Inr [])\<rparr>
      [[''title'' \<mapsto> ''T'', ''summary'' \<mapsto> ''S''], [''title'' \<mapsto> ''Only a title'']] ! 1
     = [''title'' \<mapsto> ''Only a title''] \<and>
   (\<exists>a \<in> set (batch_add_humor \<lparr>api_key = None, chat_create = (\<lambda>p. Inr [])\<rparr>
      [[''title'' \<mapsto> ''T'', ''summary'' \<mapsto> ''S''], [''title'' \<mapsto> ''Only a title'']]).
      ''humorous_content'' \<notin> dom a)"
proof -
  let ?as = "[[''title'' \<mapsto> ''T'', ''summary'' \<mapsto> ''S''], [''title'' \<mapsto> ''Only a title'']]
               :: (string \<rightharpoonup> string) list"
  let ?g = "\<lparr>api_key = None, chat_create = (\<lambda>p. Inr [])\<rparr>"
  have i: "1 < length ?as" by simp
  have at: "?as ! 1 = [''title'' \<mapsto> ''Only a title'']" by simp
  have miss: "''title'' \<notin> dom (?as ! 1) \<or> ''summary'' \<notin> dom (?as ! 1)"
    unfolding at by simp
  have none: "''humorous_content'' \<notin> dom (?as ! 1)"
    unfolding at by simp
  from batch_add_humor_frame [OF i miss, of ?g] none at show ?thesis
    by (simp only:) blast
qed

section \<open>Link Discoverer: rejection, resolution and deduplication\<close>

subsection \<open>Facts about the string operations\<close>

lemma startswith_single: "startswith s [c] \<longleftrightarrow> s \<noteq> [] \<and> hd s = c"
  by (cases s) (simp_all add: startswith_def)

lemma lstrip_no_lead: "\<not> startswith s [c] \<Longrightarrow> lstrip c s = s"
  by (cases s) (simp_all add: lstrip_def startswith_def)

lemma rstrip_no_trail: "rstrip c s = [] \<or> last (rstrip c s) \<noteq> c"
proof (cases "dropWhile (\<lambda>x. x = c) (rev s)")
  case Nil
  then show ?thesis by (simp add: rstrip_def)
next
  case (Cons y ys)
  then have "y \<noteq> c" using hd_dropWhile [of "\<lambda>x. x = c" "rev s"] by auto
  with Cons show ?thesis by (simp add: rstrip_def)
qed

lemma startswith_append:
  assumes "startswith s p"
  shows "startswith (s @ t) p"
proof -
  from assms have "length (take (length p) s) = length p"
    by (simp add: startswith_def)
  then have "length p \<le> length s"
    by simp
  with assms show ?thesis
    by (simp add: startswith_def)
qed

lemma startswith_snoc:
  assumes "p \<noteq> []" and "last p \<noteq> c"
  shows "startswith (t @ [c]) p \<longleftrightarrow> startswith t p"
proof (cases "length p \<le> length t")
  case True
  then show ?thesis by (simp add: startswith_def)
next
  case False
  then have long: "take (length p) (t @ [c]) = t @ [c]" by simp
  have "t @ [c] \<noteq> p" using assms(2) by auto
  moreover have "take (length p) t \<noteq> p"
  proof
    assume "take (length p) t = p"
    then have "length (take (length p) t) = length p" by simp
    with False show False by simp
  qed
  ultimately show ?thesis by (simp only: startswith_def long)
qed

lemma contains_snoc:
  assumes "sub \<noteq> []" and "last sub \<noteq> c"
  shows "contains sub (s @ [c]) \<longleftrightarrow> contains sub s"
proof (induction s)
  case Nil
  have "\<not> startswith [c] sub"
    using startswith_snoc [OF assms, of "[]"] assms(1) by (simp add: startswith_def)
  then show ?case using assms(1) by simp
next
  case (Cons x s)
  have "startswith ((x # s) @ [c]) sub \<longleftrightarrow> startswith (x # s) sub"
    by (rule startswith_snoc [OF assms])
  with Cons show ?case by simp
qed

lemma split_acc_no_sep: "c \<notin> set s \<Longrightarrow> split_acc c w s = [w @ s]"
  by (induction s arbitrary: w) auto

lemma split_acc_first: "c \<notin> set s \<Longrightarrow> split_acc c w (s @ c # t) = (w @ s) # split_acc c [] t"
  by (induction s arbitrary: w) auto

lemma split_at_no_sep: "c \<notin> set s \<Longrightarrow> split_at c s = [s]"
  by (simp add: split_at_def split_acc_no_sep)

lemma split_at_first: "c \<notin> set s \<Longrightarrow> split_at c (s @ c # t) = s # split_at c t"
  by (simp add: split_at_def split_acc_first)

lemma domain_scheme_host:
  assumes "CHR ''/'' \<notin> set scheme" and "CHR ''/'' \<notin> set host"
    and "rest = [] \<or> hd rest = CHR ''/''"
  shows "join ''/'' (take 3 (split_at (CHR ''/'') (scheme @ ''://'' @ host @ rest)))
           = scheme @ ''://'' @ host"
proof -
  have colon: "CHR ''/'' \<notin> set (scheme @ '':'')"
    using assms(1) by simp
  have "split_at (CHR ''/'') (scheme @ ''://'' @ host @ rest)
          = (scheme @ '':'') # split_at (CHR ''/'') (''/'' @ host @ rest)"
    using split_at_first [OF colon, of "''/'' @ host @ rest"] by simp
  also have "split_at (CHR ''/'') (''/'' @ host @ rest) = [] # split_at (CHR ''/'') (host @ rest)"
    by (simp add: split_at_def)
  finally have whole: "split_at (CHR ''/'') (scheme @ ''://'' @ host @ rest)
          = (scheme @ '':'') # [] # split_at (CHR ''/'') (host @ rest)" .
  have "\<exists>more. split_at (CHR ''/'') (host @ rest) = host # more"
  proof (cases rest)
    case Nil
    then show ?thesis using split_at_no_sep [OF assms(2)] by simp
  next
    case (Cons r rs)
    with assms(3) have "r = CHR ''/''" by simp
    with Cons show ?thesis using split_at_first [OF assms(2), of rs] by simp
  qed
  then obtain more where "split_at (CHR ''/'') (host @ rest) = host # more" ..
  with whole show ?thesis by simp
qed

subsection \<open>The two loops of the Link Discoverer\<close>

lemma links_loop_acc: "links_loop b hs acc = acc @ links_loop b hs []"
proof (induction hs arbitrary: acc)
  case Nil
  show ?case by simp
next
  case (Cons h hs)
  have step: "links_loop b hs (acc @ [x]) = acc @ links_loop b hs [x]" for x
    by (metis Cons.IH append_assoc)
  have base: "links_loop b hs acc = acc @ links_loop b hs []"
    by (rule Cons.IH)
  show ?case
    by (simp add: step base Let_def)
qed

lemma links_loop_single:
  "links_loop b [h] [] =
     (if h = [] \<or> startswith h ''#'' \<or> contains ''javascript:'' h then []
      else if startswith h ''/'' then [join ''/'' (take 3 (split_at (CHR ''/'') b)) @ h]
      else if startswith h ''http://'' \<or> startswith h ''https://'' then [h]
      else [rstrip (CHR ''/'') b @ ''/'' @ h])"
  by (simp add: Let_def lstrip_no_lead)

lemma links_loop_Cons: "links_loop b (h # hs) [] = links_loop b [h] [] @ links_loop b hs []"
  using links_loop_acc [of b hs "[x]" for x]
  by (simp add: Let_def)

lemma links_loop_member:
  "l \<in> set (links_loop b hs []) \<longleftrightarrow> (\<exists>h \<in> set hs. links_loop b [h] [] = [l])"
proof (induction hs)
  case Nil
  show ?case by simp
next
  case (Cons h hs)
  have one: "l \<in> set (links_loop b [h] []) \<longleftrightarrow> links_loop b [h] [] = [l]"
    by (auto simp: links_loop_single)
  show ?case
    unfolding links_loop_Cons [of b h hs] using Cons.IH one by auto
qed

lemma unique_loop_append: "unique_loop (xs @ ys) acc = unique_loop ys (unique_loop xs acc)"
  by (induction xs arbitrary: acc) simp_all

lemma set_unique_loop: "set (unique_loop xs acc) = set acc \<union> set xs"
  by (induction xs arbitrary: acc) auto

lemma distinct_unique_loop: "distinct acc \<Longrightarrow> distinct (unique_loop xs acc)"
  by (induction xs arbitrary: acc) simp_all

lemma unique_loop_snoc:
  "unique_loop (xs @ [x]) [] =
     (if x \<in> set xs then unique_loop xs [] else unique_loop xs [] @ [x])"
  by (simp add: unique_loop_append set_unique_loop)

lemma unique_loop_short: "length xs \<le> 1 \<Longrightarrow> unique_loop xs [] = xs"
  by (cases xs) simp_all

lemma extract_article_links_single: "extract_article_links [h] b = links_loop b [h] []"
  unfolding extract_article_links_def
  by (rule unique_loop_short) (simp add: links_loop_single)

lemma extract_article_links_member:
  "l \<in> set (extract_article_links hs b) \<longleftrightarrow> (\<exists>h \<in> set hs. extract_article_links [h] b = [l])"
  unfolding extract_article_links_single
  by (simp add: extract_article_links_def set_unique_loop links_loop_member)

lemma links_loop_pair: "links_loop b [h, h'] [] = links_loop b [h] [] @ links_loop b [h'] []"
  by (rule links_loop_Cons)

lemma trailing_slash_absolute:
  assumes "startswith h ''http://'' \<or> startswith h ''https://''"
    and "\<not> contains ''javascript:'' h"
  shows "extract_article_links [h, h @ ''/''] b = [h, h @ ''/'']"
proof -
  from assms(1) have shape: "h \<noteq> [] \<and> \<not> startswith h ''#'' \<and> \<not> startswith h ''/''"
    by (cases h) (auto simp: startswith_def)
  then have shape': "h @ ''/'' \<noteq> [] \<and> \<not> startswith (h @ ''/'') ''#'' \<and> \<not> startswith (h @ ''/'') ''/''"
    by (cases h) (auto simp: startswith_def)
  from assms(1) have abs': "startswith (h @ ''/'') ''http://'' \<or> startswith (h @ ''/'') ''https://''"
    using startswith_append by blast
  have js': "\<not> contains ''javascript:'' (h @ ''/'')"
    using assms(2) contains_snoc [of "''javascript:''" "CHR ''/''" h] by simp
  have "links_loop b [h, h @ ''/''] [] = [h, h @ ''/'']"
    unfolding links_loop_pair links_loop_single
    using assms shape shape' abs' js' by simp
  then show ?thesis
    by (simp add: extract_article_links_def)
qed

lemma trailing_slash_root_relative:
  assumes "startswith h ''/''" and "\<not> contains ''javascript:'' h"
  shows "extract_article_links [h, h @ ''/''] b
           = [join ''/'' (take 3 (split_at (CHR ''/'') b)) @ h,
              join ''/'' (take 3 (split_at (CHR ''/'') b)) @ h @ ''/'']"
proof -
  from assms(1) have shape: "h \<noteq> [] \<and> \<not> startswith h ''#''"
    by (cases h) (auto simp: startswith_def)
  then have shape': "h @ ''/'' \<noteq> [] \<and> \<not> startswith (h @ ''/'') ''#''"
    by (cases h) (auto simp: startswith_def)
  from assms(1) have root': "startswith (h @ ''/'') ''/''"
    by (rule startswith_append)
  have js': "\<not> contains ''javascript:'' (h @ ''/'')"
    using assms(2) contains_snoc [of "''javascript:''" "CHR ''/''" h] by simp
  have "links_loop b [h, h @ ''/''] []
          = [join ''/'' (take 3 (split_at (CHR ''/'') b)) @ h,
             join ''/'' (take 3 (split_at (CHR ''/'') b)) @ h @ ''/'']"
    unfolding links_loop_pair links_loop_single
    using assms shape shape' root' js' by simp
  then show ?thesis
    by (simp add: extract_article_links_def)
qed

lemma unique_loop_first_seen:
  "\<forall>i<length (unique_loop xs []). \<exists>k<length xs.
      xs ! k = unique_loop xs [] ! i \<and> unique_loop xs [] ! i \<notin> set (take k xs) \<and>
      set (take i (unique_loop xs [])) = set (take k xs)"
proof (induction xs rule: rev_induct)
  case Nil
  show ?case by simp
next
  case (snoc x xs)
  let ?u = "unique_loop xs []"
  have old: "\<exists>k<length (xs @ [x]). (xs @ [x]) ! k = ?u ! i \<and> ?u ! i \<notin> set (take k (xs @ [x])) \<and>
      set (take i ?u) = set (take k (xs @ [x]))" if "i < length ?u" for i
  proof -
    from snoc.IH that obtain k where k: "k < length xs" "xs ! k = ?u ! i"
      "?u ! i \<notin> set (take k xs)" "set (take i ?u) = set (take k xs)"
      by blast
    then show ?thesis
      by (intro exI [of _ k]) (simp add: nth_append)
  qed
  show ?case
  proof (cases "x \<in> set xs")
    case True
    then show ?thesis using old by (simp add: unique_loop_snoc)
  next
    case False
    have new: "\<exists>k<length (xs @ [x]). (xs @ [x]) ! k = x \<and> x \<notin> set (take k (xs @ [x])) \<and>
      set ?u = set (take k (xs @ [x]))"
      using False by (intro exI [of _ "length xs"]) (simp add: set_unique_loop)
    show ?thesis
    proof (intro allI impI)
      fix i assume "i < length (unique_loop (xs @ [x]) [])"
      then have "i < length ?u \<or> i = length ?u"
        using False by (auto simp: unique_loop_snoc)
      then show "\<exists>k<length (xs @ [x]).
          (xs @ [x]) ! k = unique_loop (xs @ [x]) [] ! i \<and>
          unique_loop (xs @ [x]) [] ! i \<notin> set (take k (xs @ [x])) \<and>
          set (take i (unique_loop (xs @ [x]) [])) = set (take k (xs @ [x]))"
      proof
        assume "i < length ?u"
        then show ?thesis using old [of i] False
          by (simp add: unique_loop_snoc nth_append)
      next
        assume "i = length ?u"
        then show ?thesis using new False
          by (simp add: unique_loop_snoc)
      qed
    qed
  qed
qed

text \<open>
  Claim C4, as amended. The output of \<open>_extract_article_links\<close> has no repeated entry
  and holds exactly the resolved links of the page (the list \<open>links\<close> of the first
  loop), in the order of their first appearance: the entry at position \<open>i\<close> is a
  resolved link at some position \<open>k\<close> of \<open>links\<close> that does not occur before \<open>k\<close>, and
  the entries before \<open>i\<close> are the links before \<open>k\<close>. Links are merged only when their
  resolved strings are equal. No trailing slash is removed: a target that starts with
  \<open>http://\<close>, \<open>https://\<close> or \<open>/\<close> and the same target followed by \<open>/\<close> give two
  entries.
\<close>

theorem extract_article_links_dedup:
  "distinct (extract_article_links hrefs base_url) \<and>
   set (extract_article_links hrefs base_url) = set (links_loop base_url hrefs []) \<and>
   (\<forall>i<length (extract_article_links hrefs base_url).
      \<exists>k<length (links_loop base_url hrefs []).
        links_loop base_url hrefs [] ! k = extract_article_links hrefs base_url ! i \<and>
        extract_article_links hrefs base_url ! i \<notin> set (take k (links_loop base_url hrefs [])) \<and>
        set (take i (extract_article_links hrefs base_url))
          = set (take k (links_loop base_url hrefs []))) \<and>
   ((startswith h ''http://'' \<or> startswith h ''https://'') \<and> \<not> contains ''javascript:'' h \<longrightarrow>
      extract_article_links [h, h @ ''/''] base_url = [h, h @ ''/'']) \<and>
   (startswith h ''/'' \<and> \<not> contains ''javascript:'' h \<longrightarrow>
      extract_article_links [h, h @ ''/''] base_url
        = [join ''/'' (take 3 (split_at (CHR ''/'') base_url)) @ h,
           join ''/'' (take 3 (split_at (CHR ''/'') base_url)) @ h @ ''/''])"
proof -
  have order: "distinct (extract_article_links hrefs base_url) \<and>
   set (extract_article_links hrefs base_url) = set (links_loop base_url hrefs []) \<and>
   (\<forall>i<length (extract_article_links hrefs base_url).
      \<exists>k<length (links_loop base_url hrefs []).
        links_loop base_url hrefs [] ! k = extract_article_links hrefs base_url ! i \<and>
        extract_article_links hrefs base_url ! i \<notin> set (take k (links_loop base_url hrefs [])) \<and>
        set (take i (extract_article_links hrefs base_url))
          = set (take k (links_loop base_url hrefs [])))"
    unfolding extract_article_links_def
    using distinct_unique_loop [of "[]" "links_loop base_url hrefs []"]
          set_unique_loop [of "links_loop base_url hrefs []" "[]"]
          unique_loop_first_seen [of "links_loop base_url hrefs []"]
    by simp
  show ?thesis
    using order trailing_slash_absolute [of h base_url] trailing_slash_root_relative [of h base_url]
    by blast
qed

theorem extract_article_links_dedup_witness:
  "links_loop ''https://example.com'' [''/a'', ''b'', ''a'', ''/a'', ''https://example.com/b''] []
     = [''https://example.com/a'', ''https://example.com/b'', ''https://example.com/a'',
        ''https://example.com/a'', ''https://example.com/b''] \<and>
   extract_article_links [''/a'', ''b'', ''a'', ''/a'', ''https://example.com/b''] ''https://example.com''
     = [''https://example.com/a'', ''https://example.com/b''] \<and>
   distinct (extract_article_links [''/a'', ''b'', ''a'', ''/a'', ''https://example.com/b'']
               ''https://example.com'') \<and>
   (\<exists>k<length (links_loop ''https://example.com''
                  [''/a'', ''b'', ''a'', ''/a'', ''https://example.com/b''] []).
      links_loop ''https://example.com'' [''/a'', ''b'', ''a'', ''/a'', ''https://example.com/b''] [] ! k
        = ''https://example.com/b'' \<and>
      ''https://example.com/b'' \<notin> set (take k (links_loop ''https://example.com''
                  [''/a'', ''b'', ''a'', ''/a'', ''https://example.com/b''] []))) \<and>
   extract_article_links [''https://example.com/a'', ''https://example.com/a/''] ''https://example.com''
     = [''https://example.com/a'', ''https://example.com/a/''] \<and>
   extract_article_links [''/a'', ''/a/''] ''https://example.com/news''
     = [''https://example.com/a'', ''https://example.com/a/'']"
proof -
  let ?hrefs = "[''/a'', ''b'', ''a'', ''/a'', ''https://example.com/b'']"
  let ?b = "''https://example.com''"
  have links: "links_loop ?b ?hrefs []
     = [''https://example.com/a'', ''https://example.com/b'', ''https://example.com/a'',
        ''https://example.com/a'', ''https://example.com/b'']"
    by (simp add: startswith_def lstrip_def rstrip_def split_at_def)
  have out: "extract_article_links ?hrefs ?b = [''https://example.com/a'', ''https://example.com/b'']"
    unfolding extract_article_links_def links by simp
  have second: "extract_article_links ?hrefs ?b ! 1 = ''https://example.com/b''"
    unfolding out by simp
  have "1 < length (extract_article_links ?hrefs ?b)"
    unfolding out by simp
  with extract_article_links_dedup [of ?hrefs ?b]
  have "\<exists>k<length (links_loop ?b ?hrefs []).
        links_loop ?b ?hrefs [] ! k = extract_article_links ?hrefs ?b ! 1 \<and>
        extract_article_links ?hrefs ?b ! 1 \<notin> set (take k (links_loop ?b ?hrefs [])) \<and>
        set (take 1 (extract_article_links ?hrefs ?b)) = set (take k (links_loop ?b ?hrefs []))"
    by blast
  then have first_seen: "\<exists>k<length (links_loop ?b ?hrefs []).
        links_loop ?b ?hrefs [] ! k = ''https://example.com/b'' \<and>
        ''https://example.com/b'' \<notin> set (take k (links_loop ?b ?hrefs []))"
    unfolding second by blast
  have dist: "distinct (extract_article_links ?hrefs ?b)"
    by (rule extract_article_links_dedup [THEN conjunct1])
  have "(startswith ''https://example.com/a'' ''http://'' \<or>
         startswith ''https://example.com/a'' ''https://'') \<and>
        \<not> contains ''javascript:'' ''https://example.com/a''"
    by (simp add: startswith_def)
  then have "extract_article_links [''https://example.com/a'', ''https://example.com/a'' @ ''/''] ?b
      = [''https://example.com/a'', ''https://example.com/a'' @ ''/'']"
    by (rule extract_article_links_dedup [THEN conjunct2, THEN conjunct2, THEN conjunct2,
          THEN conjunct1, rule_format])
  then have absolute: "extract_article_links [''https://example.com/a'', ''https://example.com/a/''] ?b
      = [''https://example.com/a'', ''https://example.com/a/'']"
    by simp
  have "startswith ''/a'' ''/'' \<and> \<not> contains ''javascript:'' ''/a''"
    by (simp add: startswith_def)
  then have "extract_article_links [''/a'', ''/a'' @ ''/''] ''https://example.com/news''
      = [join ''/'' (take 3 (split_at (CHR ''/'') ''https://example.com/news'')) @ ''/a'',
         join ''/'' (take 3 (split_at (CHR ''/'') ''https://example.com/news'')) @ ''/a'' @ ''/'']"
    by (rule extract_article_links_dedup [THEN conjunct2, THEN conjunct2, THEN conjunct2,
          THEN conjunct2, rule_format])
  then have root: "extract_article_links [''/a'', ''/a/''] ''https://example.com/news''
      = [''https://example.com/a'', ''https://example.com/a/'']"
    by (simp add: split_at_def)
  show ?thesis
    using links out dist first_seen absolute root by (intro conjI)
qed

text \<open>
  The claim C4 as first stated fails: two targets that differ by a trailing slash are
  not merged, whether they are absolute, root-relative or relative.
\<close>

theorem trailing_slash_counterexample:
  "extract_article_links [''https://example.com/a'', ''https://example.com/a/''] ''https://example.com''
     = [''https://example.com/a'', ''https://example.com/a/''] \<and>
   extract_article_links [''/a'', ''/a/''] ''https://example.com''
     = [''https://example.com/a'', ''https://example.com/a/''] \<and>
   extract_article_links [''a'', ''a/''] ''https://example.com''
     = [''https://example.com/a'', ''https://example.com/a/'']"
  by (simp add: extract_article_links_def startswith_def lstrip_def rstrip_def split_at_def)

text \<open>
  Claim C8, as amended. A hyperlink target is dropped if and only if it is empty, starts
  with \<open>#\<close>, or contains the text \<open>javascript:\<close> anywhere. Of the others, a target
  with a leading \<open>/\<close> becomes the first three \<open>/\<close>-separated pieces of \<open>base_url\<close>
  (its scheme and host, for a \<open>base_url\<close> of the form scheme, \<open>://\<close>, host, path)
  followed by the target; a target that starts with \<open>http://\<close> or \<open>https://\<close> is kept
  unchanged; every other target, whatever its scheme, is appended to \<open>base_url\<close>
  without its trailing slashes and one \<open>/\<close>. The links of a page are the links of its
  targets.
\<close>

theorem link_policy:
  "extract_article_links [href] base_url =
     (if href = [] \<or> startswith href ''#'' \<or> contains ''javascript:'' href then []
      else if startswith href ''/''
        then [join ''/'' (take 3 (split_at (CHR ''/'') base_url)) @ href]
      else if startswith href ''http://'' \<or> startswith href ''https://'' then [href]
      else [rstrip (CHR ''/'') base_url @ ''/'' @ href]) \<and>
   (l \<in> set (extract_article_links hrefs base_url) \<longleftrightarrow>
      (\<exists>h \<in> set hrefs. extract_article_links [h] base_url = [l])) \<and>
   (CHR ''/'' \<notin> set scheme \<and> CHR ''/'' \<notin> set host \<and> (rest = [] \<or> hd rest = CHR ''/'') \<longrightarrow>
      join ''/'' (take 3 (split_at (CHR ''/'') (scheme @ ''://'' @ host @ rest)))
        = scheme @ ''://'' @ host) \<and>
   (rstrip (CHR ''/'') base_url = [] \<or> last (rstrip (CHR ''/'') base_url) \<noteq> CHR ''/'')"
  using extract_article_links_member [of l hrefs base_url]
        domain_scheme_host [of scheme host rest]
        rstrip_no_trail [of "CHR ''/''" base_url]
  by (simp only: extract_article_links_single links_loop_single) blast

theorem link_policy_witness:
  "extract_article_links [''/article2''] ''https://example.com/news1'' = [''https://example.com/article2''] \<and>
   extract_article_links [''article3''] ''https://example.com/'' = [''https://example.com/article3''] \<and>
   extract_article_links [''https://other.org/x''] ''https://example.com'' = [''https://other.org/x''] \<and>
   extract_article_links [''#top''] ''https://example.com'' = [] \<and>
   ''https://example.com/article2''
      \<in> set (extract_article_links [''#top'', ''/article2''] ''https://example.com/news1'')"
proof -
  have "CHR ''/'' \<notin> set ''https'' \<and> CHR ''/'' \<notin> set ''example.com'' \<and>
        (''/news1'' = [] \<or> hd ''/news1'' = CHR ''/'')"
    by simp
  then have "join ''/'' (take 3 (split_at (CHR ''/'') (''https'' @ ''://'' @ ''example.com'' @ ''/news1'')))
      = ''https'' @ ''://'' @ ''example.com''"
    by (rule link_policy [THEN conjunct2, THEN conjunct2, THEN conjunct1, rule_format])
  then have dom: "join ''/'' (take 3 (split_at (CHR ''/'') ''https://example.com/news1''))
      = ''https://example.com''"
    by simp
  have a: "extract_article_links [''/article2''] ''https://example.com/news1'' = [''https://example.com/article2'']"
    using link_policy [of "''/article2''" "''https://example.com/news1''", THEN conjunct1] dom
    by (simp add: startswith_def)
  have b: "extract_article_links [''article3''] ''https://example.com/'' = [''https://example.com/article3'']"
    using link_policy [of "''article3''" "''https://example.com/''", THEN conjunct1]
    by (simp add: startswith_def rstrip_def)
  have c: "extract_article_links [''https://other.org/x''] ''https://example.com'' = [''https://other.org/x'']"
    using link_policy [of "''https://other.org/x''" "''https://example.com''", THEN conjunct1]
    by (simp add: startswith_def)
  have d: "extract_article_links [''#top''] ''https://example.com'' = []"
    using link_policy [of "''#top''" "''https://example.com''", THEN conjunct1]
    by (simp add: startswith_def)
  have "\<exists>h \<in> set [''#top'', ''/article2''].
          extract_article_links [h] ''https://example.com/news1'' = [''https://example.com/article2'']"
    using a by simp
  then have e: "''https://example.com/article2''
      \<in> set (extract_article_links [''#top'', ''/article2''] ''https://example.com/news1'')"
    by (rule link_policy [THEN conjunct2, THEN conjunct1, THEN iffD2])
  show ?thesis using a b c d e by blast
qed

text \<open>
  The claim C8 as first stated fails: a link that is absolute already, with a scheme
  other than \<open>http\<close> and \<open>https\<close>, is not passed through but appended to \<open>base_url\<close>.
  The script test is a substring test: it drops a path that merely contains
  \<open>javascript:\<close> and keeps a script link written with capitals.
\<close>

theorem absolute_link_counterexample:
  "extract_article_links [''ftp://files.example.org/a.txt''] ''https://example.com''
     = [''https://example.com/ftp://files.example.org/a.txt''] \<and>
   extract_article_links [''ftp://files.example.org/a.txt''] ''https://example.com''
     \<noteq> [''ftp://files.example.org/a.txt''] \<and>
   extract_article_links [''/guides/javascript:-the-good-parts''] ''https://example.com'' = [] \<and>
   extract_article_links [''JavaScript:void(0)''] ''https://example.com''
     = [''https://example.com/JavaScript:void(0)'']"
  by (simp add: extract_article_links_def startswith_def lstrip_def rstrip_def split_at_def)

text \<open>
  Claim C10. A protocol-relative target, one that starts with \<open>//\<close>, takes the branch
  of the targets with a leading \<open>/\<close>: when it passes the script test, its link is the
  first three \<open>/\<close>-separated pieces of \<open>base_url\<close>, its scheme and host, followed by the
  whole target, as in \<open>https://base-host//other-host/path\<close>; the host named in the
  target is not used.
\<close>

theorem protocol_relative_links:
  "startswith href ''//'' \<Longrightarrow> \<not> contains ''javascript:'' href \<Longrightarrow>
     extract_article_links [href] base_url
       = [join ''/'' (take 3 (split_at (CHR ''/'') base_url)) @ href] \<and>
     (href \<in> set hrefs \<longrightarrow>
        join ''/'' (take 3 (split_at (CHR ''/'') base_url)) @ href
          \<in> set (extract_article_links hrefs base_url)) \<and>
     (base_url = scheme @ ''://'' @ host @ rest \<and> CHR ''/'' \<notin> set scheme \<and>
      CHR ''/'' \<notin> set host \<and> (rest = [] \<or> hd rest = CHR ''/'') \<longrightarrow>
        extract_article_links [href] base_url = [scheme @ ''://'' @ host @ href])"
proof -
  assume pr: "startswith href ''//''" and js: "\<not> contains ''javascript:'' href"
  from pr have ne: "href \<noteq> []" and sl: "startswith href ''/''" and nh: "\<not> startswith href ''#''"
    by (cases href; simp add: startswith_def)+
  have one: "extract_article_links [href] base_url
       = [join ''/'' (take 3 (split_at (CHR ''/'') base_url)) @ href]"
    using ne sl nh js by (simp add: extract_article_links_single links_loop_single)
  have two: "href \<in> set hrefs \<longrightarrow>
        join ''/'' (take 3 (split_at (CHR ''/'') base_url)) @ href
          \<in> set (extract_article_links hrefs base_url)"
    using one extract_article_links_member [of _ hrefs base_url] by blast
  have three: "base_url = scheme @ ''://'' @ host @ rest \<and> CHR ''/'' \<notin> set scheme \<and>
      CHR ''/'' \<notin> set host \<and> (rest = [] \<or> hd rest = CHR ''/'') \<longrightarrow>
        extract_article_links [href] base_url = [scheme @ ''://'' @ host @ href]"
    using one domain_scheme_host [of scheme host rest] by auto
  show ?thesis using one two three by blast
qed

theorem protocol_relative_links_witness:
  "extract_article_links [''//other-host/path''] ''https://base-host''
     = [''https://base-host//other-host/path''] \<and>
   ''https://base-host//other-host/path''
     \<in> set (extract_article_links [''/a'', ''//other-host/path''] ''https://base-host'')"
proof -
  have pr: "startswith ''//other-host/path'' ''//''" by (simp add: startswith_def)
  have js: "\<not> contains ''javascript:'' ''//other-host/path''" by (simp add: startswith_def)
  note at = protocol_relative_links [OF pr js, of "''https://base-host''"
      "[''/a'', ''//other-host/path'']" "''https''" "''base-host''" "[]"]
  have "''https://base-host'' = ''https'' @ ''://'' @ ''base-host'' @ [] \<and>
        CHR ''/'' \<notin> set ''https'' \<and> CHR ''/'' \<notin> set ''base-host'' \<and>
        (([] :: string) = [] \<or> hd [] = CHR ''/'')"
    by simp
  then have "extract_article_links [''//other-host/path''] ''https://base-host''
          = [''https'' @ ''://'' @ ''base-host'' @ ''//other-host/path'']"
    by (rule at [THEN conjunct2, THEN conjunct2, rule_format])
  then have one: "extract_article_links [''//other-host/path''] ''https://base-host''
          = [''https://base-host//other-host/path'']"
    by simp
  have "''//other-host/path'' \<in> set [''/a'', ''//other-host/path'']" by simp
  then have "join ''/'' (take 3 (split_at (CHR ''/'') ''https://base-host'')) @ ''//other-host/path''
          \<in> set (extract_article_links [''/a'', ''//other-host/path''] ''https://base-host'')"
    by (rule at [THEN conjunct2, THEN conjunct1, rule_format])
  moreover have "join ''/'' (take 3 (split_at (CHR ''/'') ''https://base-host'')) = ''https://base-host''"
    by (simp add: split_at_def)
  ultimately show ?thesis using one by simp
qed

section \<open>Source Ingestion Engine: cap, recency filter and URLs of a batch\<close>

subsection \<open>One extraction\<close>

lemma extract_article_content_requests:
  "snd (extract_article_content w now url nm requests) = requests @ [url]"
  by (auto simp: extract_article_content_def extract_try_def article_download_def
           split: sum.splits exn.splits)


lemma extract_article_content_step:
  "extract_article_content w now url nm requests
     = (fst (extract_article_content w now url nm requests), requests @ [url])"
  by (metis extract_article_content_requests prod.collapse)

subsection \<open>The extraction loop\<close>

lemma extract_loop_Cons:
  "extract_loop w nm (url # rest) articles requests =
     extract_loop w nm rest
       (articles @ (case fst (extract_article_content w (clock w (length requests)) url nm requests) of
                      None \<Rightarrow> [] | Some a \<Rightarrow> [a]))
       (requests @ [url])"
  using extract_article_content_step [of w "clock w (length requests)" url nm requests]
  by (cases "fst (extract_article_content w (clock w (length requests)) url nm requests)") simp_all

lemma extract_loop_requests:
  "snd (extract_loop w nm urls articles requests) = requests @ urls"
proof (induction urls arbitrary: articles requests)
  case Nil
  show ?case by simp
next
  case (Cons url rest)
  show ?case
    unfolding extract_loop_Cons by (simp add: Cons.IH)
qed


text \<open>The records of the loop are the results of the extractions that gave one, in the
  order of the links; attempt number \<open>i\<close> finds the requests of the attempts before it.\<close>

lemma extract_loop_articles:
  "fst (extract_loop w nm urls articles requests) =
     articles @ List.map_filter
       (\<lambda>i. fst (extract_article_content w (clock w (length requests + i)) (urls ! i) nm
                   (requests @ take i urls)))
       [0..<length urls]"
proof (induction urls arbitrary: articles requests)
  case Nil
  show ?case by (simp add: List.map_filter_simps)
next
  case (Cons u us)
  let ?f = "\<lambda>i. fst (extract_article_content w (clock w (length requests + i)) ((u # us) ! i) nm
                   (requests @ take i (u # us)))"
  let ?g = "\<lambda>i. fst (extract_article_content w (clock w (length (requests @ [u]) + i)) (us ! i) nm
                   ((requests @ [u]) @ take i us))"
  have shift: "?f \<circ> Suc = ?g"
    by (rule ext) simp
  have upt: "[0..<length (u # us)] = 0 # map Suc [0..<length us]"
    by (simp add: upt_conv_Cons map_Suc_upt del: upt_Suc)
  have "List.map_filter ?f [0..<length (u # us)]
          = (case ?f 0 of None \<Rightarrow> [] | Some a \<Rightarrow> [a]) @ List.map_filter (?f \<circ> Suc) [0..<length us]"
    unfolding upt
    by (cases "?f 0") (simp_all add: List.map_filter_simps List.map_filter_def filter_map comp_def)
  then have "List.map_filter ?f [0..<length (u # us)]
          = (case fst (extract_article_content w (clock w (length requests)) u nm requests) of
               None \<Rightarrow> [] | Some a \<Rightarrow> [a]) @ List.map_filter ?g [0..<length us]"
    unfolding shift by simp
  then show ?case
    unfolding extract_loop_Cons Cons.IH by simp
qed

subsection \<open>One source\<close>



lemma collect_from_source_fetched:
  "http_get w (src_url src) = Inr hrefs \<Longrightarrow>
     collect_from_source w k src requests =
       (Inr (fst (extract_loop w (src_name src)
                   (slice_to k (extract_article_links hrefs (src_url src))) [] requests)),
        requests @ slice_to k (extract_article_links hrefs (src_url src)))"
  using extract_loop_requests [of w "src_name src"
      "slice_to k (extract_article_links hrefs (src_url src))" "[]" requests]
  by (auto simp: collect_from_source_def Let_def split: prod.splits)


lemma map_filter_upt_cong:
  assumes "\<And>i. i < n \<Longrightarrow> f i = g i"
  shows "List.map_filter f [0..<n] = List.map_filter g [0..<n]"
proof -
  have same: "filter (\<lambda>i. f i \<noteq> None) [0..<n] = filter (\<lambda>i. g i \<noteq> None) [0..<n]"
    by (rule filter_cong) (simp_all add: assms)
  have "map (the \<circ> f) (filter (\<lambda>i. g i \<noteq> None) [0..<n])
          = map (the \<circ> g) (filter (\<lambda>i. g i \<noteq> None) [0..<n])"
    by (rule map_cong) (simp_all add: assms)
  with same show ?thesis
    by (simp add: List.map_filter_def)
qed

text \<open>The definitions a run on a concrete page unfolds.\<close>

lemmas run_defs = collect_from_source_def extract_article_links_def extract_article_content_def
  extract_try_def article_download_def slice_to_def startswith_def split_at_def lstrip_def
  rstrip_def Let_def

text \<open>
  Claim C5. When the landing page of a source is fetched and the Link Discoverer finds
  more than \<open>k = max_articles_per_source\<close> links, \<open>_collect_from_source\<close> calls the
  extractor on the first \<open>k\<close> links, in order, and on no other: the run sends exactly
  \<open>k\<close> article downloads, one for each of these links, and returns the records of the
  extractions among them that gave one. The cap is a count, so \<open>k\<close> is not negative.
\<close>

theorem cap_enforcement:
  "http_get w (src_url src) = Inr hrefs \<Longrightarrow> 0 \<le> k \<Longrightarrow>
   nat k < length (extract_article_links hrefs (src_url src)) \<Longrightarrow>
     snd (collect_from_source w k src requests)
       = requests @ take (nat k) (extract_article_links hrefs (src_url src)) \<and>
     length (snd (collect_from_source w k src requests)) = length requests + nat k \<and>
     fst (collect_from_source w k src requests)
       = Inr (List.map_filter
           (\<lambda>i. fst (extract_article_content w (clock w (length requests + i))
                       (extract_article_links hrefs (src_url src) ! i) (src_name src)
                       (requests @ take i (extract_article_links hrefs (src_url src)))))
           [0..<nat k])"
proof -
  assume fetched: "http_get w (src_url src) = Inr hrefs" and cap: "0 \<le> k"
    and more: "nat k < length (extract_article_links hrefs (src_url src))"
  let ?links = "extract_article_links hrefs (src_url src)"
  have cut: "slice_to k ?links = take (nat k) ?links"
    using cap by (simp add: slice_to_def)
  have len: "length (take (nat k) ?links) = nat k"
    using more by simp
  have run: "collect_from_source w k src requests =
       (Inr (fst (extract_loop w (src_name src) (take (nat k) ?links) [] requests)),
        requests @ take (nat k) ?links)"
    using collect_from_source_fetched [OF fetched, of k requests] cut by simp
  have "List.map_filter
          (\<lambda>i. fst (extract_article_content w (clock w (length requests + i))
                      (take (nat k) ?links ! i) (src_name src)
                      (requests @ take i (take (nat k) ?links))))
          [0..<nat k]
      = List.map_filter
          (\<lambda>i. fst (extract_article_content w (clock w (length requests + i))
                      (?links ! i) (src_name src) (requests @ take i ?links)))
          [0..<nat k]"
    by (rule map_filter_upt_cong) (simp add: min_def)
  then have articles: "fst (extract_loop w (src_name src) (take (nat k) ?links) [] requests)
      = List.map_filter
          (\<lambda>i. fst (extract_article_content w (clock w (length requests + i))
                      (?links ! i) (src_name src) (requests @ take i ?links)))
          [0..<nat k]"
    using extract_loop_articles [of w "src_name src" "take (nat k) ?links" "[]" requests] len
    by simp
  show ?thesis
    using run articles len by simp
qed

theorem cap_enforcement_witness:
  "snd (collect_from_source
      \<lparr>http_get = (\<lambda>u. Inr [''/a'', ''/b'', ''/c'']),
       download = (\<lambda>u. if u = ''https://example.com/b'' then Inl ArticleException else Inr ''<html>''),
       parse = (\<lambda>u p. Inr \<lparr>parsed_title = ''Title'', parsed_text = ''Body'', publish_date = None\<rparr>),
       clock = (\<lambda>n. 7)\<rparr>
      2 \<lparr>src_name = ''Example'', src_url = ''https://example.com''\<rparr> [])
     = [''https://example.com/a'', ''https://example.com/b''] \<and>
   length (snd (collect_from_source
      \<lparr>http_get = (\<lambda>u. Inr [''/a'', ''/b'', ''/c'']),
       download = (\<lambda>u. if u = ''https://example.com/b'' then Inl ArticleException else Inr ''<html>''),
       parse = (\<lambda>u p. Inr \<lparr>parsed_title = ''Title'', parsed_text = ''Body'', publish_date = None\<rparr>),
       clock = (\<lambda>n. 7)\<rparr>
      2 \<lparr>src_name = ''Example'', src_url = ''https://example.com''\<rparr> [])) = 2 \<and>
   fst (collect_from_source
      \<lparr>http_get = (\<lambda>u. Inr [''/a'', ''/b'', ''/c'']),
       download = (\<lambda>u. if u = ''https://example.com/b'' then Inl ArticleException else Inr ''<html>''),
       parse = (\<lambda>u p. Inr \<lparr>parsed_title = ''Title'', parsed_text = ''Body'', publish_date = None\<rparr>),
       clock = (\<lambda>n. 7)\<rparr>
      2 \<lparr>src_name = ''Example'', src_url = ''https://example.com''\<rparr> [])
     = Inr [\<lparr>article_title = ''Title'', article_text = ''Body'',
             article_url = ''https://example.com/a'', article_source = ''Example'',
             article_date = Naive 7\<rparr>]"
proof -
  let ?w = "\<lparr>http_get = (\<lambda>u. Inr [''/a'', ''/b'', ''/c'']),
       download = (\<lambda>u. if u = ''https://example.com/b'' then Inl ArticleException else Inr ''<html>''),
       parse = (\<lambda>u p. Inr \<lparr>parsed_title = ''Title'', parsed_text = ''Body'', publish_date = None\<rparr>),
       clock = (\<lambda>n. 7)\<rparr>"
  let ?s = "\<lparr>src_name = ''Example'', src_url = ''https://example.com''\<rparr>"
  have links: "extract_article_links [''/a'', ''/b'', ''/c''] ''https://example.com''
      = [''https://example.com/a'', ''https://example.com/b'', ''https://example.com/c'']"
    by (simp add: run_defs)
  have fetch: "http_get ?w (src_url ?s) = Inr [''/a'', ''/b'', ''/c'']"
    by simp
  have cap: "(0::int) \<le> 2"
    by simp
  have more: "nat 2 < length (extract_article_links [''/a'', ''/b'', ''/c''] (src_url ?s))"
    by (simp add: links)
  have upt: "[0..<2] = [0, Suc 0]"
    by (simp add: numeral_2_eq_2)
  note at = cap_enforcement [OF fetch cap more, of "[]"]
  have requests: "snd (collect_from_source ?w 2 ?s [])
      = [''https://example.com/a'', ''https://example.com/b'']"
    using at [THEN conjunct1] by (simp add: links)
  have count: "length (snd (collect_from_source ?w 2 ?s [])) = 2"
    using at [THEN conjunct2, THEN conjunct1] by simp
  have records: "fst (collect_from_source ?w 2 ?s [])
      = Inr [\<lparr>article_title = ''Title'', article_text = ''Body'',
             article_url = ''https://example.com/a'', article_source = ''Example'',
             article_date = Naive 7\<rparr>]"
    using at [THEN conjunct2, THEN conjunct2]
    by (simp add: links upt List.map_filter_simps extract_article_content_def extract_try_def
        article_download_def)
  show ?thesis
    using requests count records by (intro conjI)
qed

subsection \<open>The date filter\<close>

lemma date_filter_result:
  "date_filter c articles =
     (if \<exists>a \<in> set articles. \<exists>t. article_date a = Aware t then Inl TypeError
      else Inr (filter (\<lambda>a. case article_date a of Naive t \<Rightarrow> c \<le> t | Aware t \<Rightarrow> False)
                  articles))"
proof (induction articles)
  case Nil
  show ?case by simp
next
  case (Cons a rest)
  show ?case
  proof (cases "article_date a")
    case (Aware t)
    then show ?thesis by auto
  next
    case (Naive t)
    then show ?thesis using Cons.IH by auto
  qed
qed

text \<open>What \<open>collect_news\<close> returns, case by case, from the merged collection.\<close>

lemma collect_news_outcome:
  "collect_news w now days k sources =
     (if fst (sources_loop w k sources [] []) = [] then Inr []
      else if \<bar>days\<bar> > 999999999 \<or> now - days * day < 0 \<or> now - days * day > datetime_max
        then Inl OverflowError
      else if \<exists>a \<in> set (fst (sources_loop w k sources [] [])). \<exists>t. article_date a = Aware t
        then Inl TypeError
      else Inr (filter (\<lambda>a. case article_date a of
                              Naive t \<Rightarrow> now - days * day \<le> t | Aware t \<Rightarrow> False)
                  (fst (sources_loop w k sources [] []))))"
  by (simp add: collect_news_def Let_def timedelta_days_def datetime_sub_def date_filter_result
           not_less not_le)

text \<open>
  When every date of the merged collection is naive and the cutoff is a date,
  \<open>collect_news\<close> keeps a record of the merged collection if and only if its date is not
  before \<open>now - days_to_look_back\<close> days.
\<close>

lemma recency_filter_naive:
  assumes "\<forall>a \<in> set (fst (sources_loop w k sources [] [])). \<exists>t. article_date a = Naive t"
    and "\<bar>days\<bar> \<le> 999999999" and "0 \<le> now - days * day" and "now - days * day \<le> datetime_max"
  shows "\<exists>batch. collect_news w now days k sources = Inr batch \<and>
           (\<forall>r. r \<in> set batch \<longleftrightarrow>
              r \<in> set (fst (sources_loop w k sources [] [])) \<and>
              (\<exists>t. article_date r = Naive t \<and> now - days * day \<le> t))"
proof (cases "fst (sources_loop w k sources [] []) = []")
  case True
  then show ?thesis by (simp add: collect_news_outcome)
next
  case False
  have naive: "\<not> (\<exists>a \<in> set (fst (sources_loop w k sources [] [])). \<exists>t. article_date a = Aware t)"
    using assms(1) by fastforce
  have "collect_news w now days k sources
      = Inr (filter (\<lambda>a. case article_date a of
                              Naive t \<Rightarrow> now - days * day \<le> t | Aware t \<Rightarrow> False)
                  (fst (sources_loop w k sources [] [])))"
    using False naive assms(2-4) by (simp add: collect_news_outcome)
  then show ?thesis
    by (auto split: datetime.splits)
qed

text \<open>On naive dates the filter does what the look-back asks: of two records dated
  four and two days before \<open>now\<close>, a look-back of three days keeps the second only.\<close>

lemma recency_filter_naive_example:
  "collect_news
     \<lparr>http_get = (\<lambda>u. Inr [''/old'', ''/new'']), download = (\<lambda>u. Inr ''<html>''),
      parse = (\<lambda>u p. Inr \<lparr>parsed_title = ''Title'', parsed_text = ''Body'',
         publish_date = Some (if u = ''https://example.com/old''
                              then Naive (739000 * day - (3 + 1) * day)
                              else Naive (739000 * day - (3 - 1) * day))\<rparr>),
      clock = (\<lambda>n. 739000 * day)\<rparr> (739000 * day) 3 5
     [\<lparr>src_name = ''Example'', src_url = ''https://example.com''\<rparr>]
   = Inr [\<lparr>article_title = ''Title'', article_text = ''Body'',
           article_url = ''https://example.com/new'', article_source = ''Example'',
           article_date = Naive (739000 * day - (3 - 1) * day)\<rparr>]"
proof -
  let ?w = "\<lparr>http_get = (\<lambda>u. Inr [''/old'', ''/new'']), download = (\<lambda>u. Inr ''<html>''),
      parse = (\<lambda>u p. Inr \<lparr>parsed_title = ''Title'', parsed_text = ''Body'',
         publish_date = Some (if u = ''https://example.com/old''
                              then Naive (739000 * day - (3 + 1) * day)
                              else Naive (739000 * day - (3 - 1) * day))\<rparr>),
      clock = (\<lambda>n. 739000 * day)\<rparr>"
  let ?s = "\<lparr>src_name = ''Example'', src_url = ''https://example.com''\<rparr>"
  let ?old = "\<lparr>article_title = ''Title'', article_text = ''Body'',
     article_url = ''https://example.com/old'', article_source = ''Example'',
     article_date = Naive (739000 * day - (3 + 1) * day)\<rparr>"
  let ?new = "\<lparr>article_title = ''Title'', article_text = ''Body'',
     article_url = ''https://example.com/new'', article_source = ''Example'',
     article_date = Naive (739000 * day - (3 - 1) * day)\<rparr>"
  have run: "collect_from_source ?w 5 ?s []
      = (Inr [?old, ?new], [''https://example.com/old'', ''https://example.com/new''])"
    by (simp add: run_defs)
  have merged: "fst (sources_loop ?w 5 [?s] [] []) = [?old, ?new]"
    by (simp add: run)
  show ?thesis
    unfolding collect_news_outcome merged
    by (simp add: day_def datetime_max_def)
qed

text \<open>
  Claim C6. \<open>collect_news\<close> is to keep a record of the merged collection if and only if
  its date is not before \<open>now - days_to_look_back\<close> days. The code does so on naive
  dates only. A page that writes its publish date with an offset gives a
  timezone-aware date; a record dated two days before \<open>now\<close> in this way, which a
  look-back of three days is to keep, makes the comparison raise \<open>TypeError\<close>, and
  \<open>collect_news\<close> returns no batch. A look-back of four million days, before the first
  date of the calendar, makes the cutoff raise \<open>OverflowError\<close>.
\<close>

theorem recency_filter_aware_date:
  "fst (sources_loop
     \<lparr>http_get = (\<lambda>u. Inr [''/new'']), download = (\<lambda>u. Inr ''<html>''),
      parse = (\<lambda>u p. Inr \<lparr>parsed_title = ''Title'', parsed_text = ''Body'',
         publish_date = Some (Aware (739000 * day - (3 - 1) * day))\<rparr>),
      clock = (\<lambda>n. 739000 * day)\<rparr> 5
     [\<lparr>src_name = ''Example'', src_url = ''https://example.com''\<rparr>] [] [])
   = [\<lparr>article_title = ''Title'', article_text = ''Body'',
       article_url = ''https://example.com/new'', article_source = ''Example'',
       article_date = Aware (739000 * day - (3 - 1) * day)\<rparr>] \<and>
   collect_news
     \<lparr>http_get = (\<lambda>u. Inr [''/new'']), download = (\<lambda>u. Inr ''<html>''),
      parse = (\<lambda>u p. Inr \<lparr>parsed_title = ''Title'', parsed_text = ''Body'',
         publish_date = Some (Aware (739000 * day - (3 - 1) * day))\<rparr>),
      clock = (\<lambda>n. 739000 * day)\<rparr> (739000 * day) 3 5
     [\<lparr>src_name = ''Example'', src_url = ''https://example.com''\<rparr>]
   = Inl TypeError \<and>
   collect_news
     \<lparr>http_get = (\<lambda>u. Inr [''/new'']), download = (\<lambda>u. Inr ''<html>''),
      parse = (\<lambda>u p. Inr \<lparr>parsed_title = ''Title'', parsed_text = ''Body'',
         publish_date = None\<rparr>),
      clock = (\<lambda>n. 739000 * day)\<rparr> (739000 * day) 4000000 5
     [\<lparr>src_name = ''Example'', src_url = ''https://example.com''\<rparr>]
   = Inl OverflowError"
proof -
  let ?aware = "\<lparr>http_get = (\<lambda>u. Inr [''/new'']), download = (\<lambda>u. Inr ''<html>''),
      parse = (\<lambda>u p. Inr \<lparr>parsed_title = ''Title'', parsed_text = ''Body'',
         publish_date = Some (Aware (739000 * day - (3 - 1) * day))\<rparr>),
      clock = (\<lambda>n. 739000 * day)\<rparr>"
  let ?naive = "\<lparr>http_get = (\<lambda>u. Inr [''/new'']), download = (\<lambda>u. Inr ''<html>''),
      parse = (\<lambda>u p. Inr \<lparr>parsed_title = ''Title'', parsed_text = ''Body'',
         publish_date = None\<rparr>),
      clock = (\<lambda>n. 739000 * day)\<rparr>"
  let ?s = "\<lparr>src_name = ''Example'', src_url = ''https://example.com''\<rparr>"
  let ?r = "\<lparr>article_title = ''Title'', article_text = ''Body'',
       article_url = ''https://example.com/new'', article_source = ''Example'',
       article_date = Aware (739000 * day - (3 - 1) * day)\<rparr>"
  let ?n = "\<lparr>article_title = ''Title'', article_text = ''Body'',
       article_url = ''https://example.com/new'', article_source = ''Example'',
       article_date = Naive (739000 * day)\<rparr>"
  have run: "collect_from_source ?aware 5 ?s [] = (Inr [?r], [''https://example.com/new''])"
    by (simp add: run_defs)
  have merged: "fst (sources_loop ?aware 5 [?s] [] []) = [?r]"
    using run by simp
  have raised: "collect_news ?aware (739000 * day) 3 5 [?s] = Inl TypeError"
    unfolding collect_news_def merged
    by (simp add: timedelta_days_def datetime_sub_def day_def datetime_max_def)
  have run': "collect_from_source ?naive 5 ?s [] = (Inr [?n], [''https://example.com/new''])"
    by (simp add: run_defs)
  have merged': "fst (sources_loop ?naive 5 [?s] [] []) = [?n]"
    using run' by simp
  have overflow: "collect_news ?naive (739000 * day) 4000000 5 [?s] = Inl OverflowError"
    unfolding collect_news_def merged'
    by (simp add: timedelta_days_def datetime_sub_def day_def datetime_max_def)
  show ?thesis
    using merged raised overflow by (intro conjI)
qed

subsection \<open>URLs of a batch\<close>







end
